theory Spec2Isabelle
  imports Main "HOL-Library.Multiset" "HOL-Library.Product_Lexorder"
begin

section \<open>Data model\<close>

text \<open>
  The task module of the CRM: \<^verbatim>\<open>tasks/models/task.py\<close> (the \<^verbatim>\<open>Task\<close> model),
  \<^verbatim>\<open>tasks/forms.py\<close> (form validation) and \<^verbatim>\<open>tasks/site/taskadmin.py\<close> (the admin
  controller). The database is an explicit value that every operation reads and
  returns; a Python exception is the left summand of the result.

  Dates are day numbers, durations are numbers of microseconds (as Python's
  \<^verbatim>\<open>timedelta\<close> counts them), users are their primary keys.
\<close>

type_synonym date = int
type_synonym timedelta = int
type_synonym user = nat

text \<open>
  A row of \<^verbatim>\<open>TaskStage\<close> with the four flags the code reads. A record's field names are
  global, so the stage's fields carry the prefix \<open>stage_\<close> (\<^verbatim>\<open>stage.active\<close> is
  \<open>stage_active\<close>).
\<close>

record TaskStage =
  stage_name :: string
  stage_active :: bool
  stage_done :: bool
  stage_default :: bool
  stage_in_progress :: bool

text \<open>
  A \<^verbatim>\<open>Task\<close> instance. \<open>id'\<close> is the primary key (\<open>None\<close> before the first save),
  \<open>task\<close> the column \<^verbatim>\<open>task_id\<close> of the self-referential foreign key, \<open>stage\<close> the
  related stage object as the attribute \<^verbatim>\<open>self.stage\<close> yields it (\<open>None\<close> when the
  column is null). The fields from \<open>name\<close> on are inherited from \<^verbatim>\<open>TaskBase\<close>;
  \<open>responsible\<close> lists the users of the many-to-many relation.
\<close>

record Task =
  id' :: "nat option"
  task :: "nat option"
  stage :: "TaskStage option"
  hide_main_task :: bool
  lead_time :: "timedelta option"
  name :: string
  active :: bool
  next_step :: string
  next_step_date :: "date option"
  due_date :: "date option"
  closing_date :: "date option"
  responsible :: "user list"
  workflow :: "string list"

text \<open>
  A row of \<^verbatim>\<open>common.TheFile\<close>: the stored file and the generic relation
  (\<^verbatim>\<open>content_object\<close>) to the object it is attached to. The field \<^verbatim>\<open>file\<close> is
  written \<open>file'\<close>.
\<close>

datatype model_kind = TaskModel | ProjectModel | MemoModel

record TheFile =
  file' :: string
  content_type :: model_kind
  object_id :: "nat option"

text \<open>The tables, each a list of rows in the order an unordered queryset yields them.\<close>

record db =
  task_table :: "Task list"
  stage_table :: "TaskStage list"
  file_table :: "TheFile list"

text \<open>
  The exceptions of the code: a \<^verbatim>\<open>ValidationError\<close> with the field it is keyed on
  (\<open>None\<close> for a plain message) and its message, and the \<^verbatim>\<open>DoesNotExist\<close> that
  following a foreign key to a missing row raises.
\<close>

datatype error = ValidationError "string option" string | DoesNotExist

subsection \<open>Python truth values\<close>

text \<open>\<^verbatim>\<open>if x:\<close> on an optional integer, duration, string or list.\<close>

definition truthy_id :: "nat option \<Rightarrow> bool" where
  "truthy_id v = (case v of None \<Rightarrow> False | Some i \<Rightarrow> i \<noteq> 0)"

definition truthy_timedelta :: "timedelta option \<Rightarrow> bool" where
  "truthy_timedelta v = (case v of None \<Rightarrow> False | Some t \<Rightarrow> t \<noteq> 0)"

definition truthy_seq :: "'a list option \<Rightarrow> bool" where
  "truthy_seq v = (case v of None \<Rightarrow> False | Some xs \<Rightarrow> xs \<noteq> [])"

subsection \<open>Queries\<close>

text \<open>\<^verbatim>\<open>Task.objects.filter(id=i).first()\<close>.\<close>

definition get_task :: "db \<Rightarrow> nat \<Rightarrow> Task option" where
  "get_task d i = find (\<lambda>t. id' t = Some i) (task_table d)"

text \<open>
  The attribute \<^verbatim>\<open>obj.task\<close>: \<open>None\<close> when the column is null, the related row
  otherwise; Django raises \<^verbatim>\<open>DoesNotExist\<close> when that row is missing.
\<close>

definition related_task :: "db \<Rightarrow> Task \<Rightarrow> error + Task option" where
  "related_task d obj =
     (case task obj of
        None \<Rightarrow> Inr None
      | Some p \<Rightarrow>
          (case get_task d p of
             None \<Rightarrow> Inl DoesNotExist
           | Some m \<Rightarrow> Inr (Some m)))"

text \<open>\<^verbatim>\<open>Task.objects.filter(task=main_task)\<close>: the sub-tasks of a task.\<close>

definition subtasks_of :: "db \<Rightarrow> Task \<Rightarrow> Task list" where
  "subtasks_of d main_task =
     filter (\<lambda>t. id' main_task \<noteq> None \<and> task t = id' main_task) (task_table d)"

text \<open>\<^verbatim>\<open>obj.files.all()\<close>: the files attached to a task.\<close>

definition task_files :: "db \<Rightarrow> Task \<Rightarrow> TheFile list" where
  "task_files d obj =
     filter (\<lambda>f. content_type f = TaskModel \<and> id' obj \<noteq> None \<and> object_id f = id' obj)
       (file_table d)"

section \<open>The Task model\<close>

subsection \<open>Task.clean\<close>

definition closed_with_active_subtask :: error where
  "closed_with_active_subtask =
     ValidationError (Some ''stage'')
       ''The task cannot be closed because there is an active subtask.''"

text \<open>
  \<^verbatim>\<open>Task.objects.filter(task__id=self_id, stage__active=True).exists()\<close>
\<close>

definition is_active_subtask :: "db \<Rightarrow> nat \<Rightarrow> bool" where
  "is_active_subtask d self_id =
     list_ex (\<lambda>t. task t = Some self_id \<and>
                  (case stage t of None \<Rightarrow> False | Some s \<Rightarrow> stage_active s))
       (task_table d)"

text \<open>
  Modelled from the spec: \<^verbatim>\<open>TaskBase.clean\<close> (\<^verbatim>\<open>tasks/models/taskbase.py\<close> is not
  among the source files). The spec knows of "no invariant beyond don't close a task
  with an active sub-task", so the inherited \<^verbatim>\<open>clean\<close> accepts every task.
\<close>

definition super_clean :: "Task \<Rightarrow> error + unit" where
  "super_clean self = Inr ()"

definition Task_clean :: "db \<Rightarrow> Task \<Rightarrow> error + unit" where
  "Task_clean d self =
     (let self_id = id' self in
      if truthy_id self_id then
        (case related_task d self of
           Inl e \<Rightarrow> Inl e
         | Inr (Some parent) \<Rightarrow> super_clean self
         | Inr None \<Rightarrow>
             (case stage self of
                None \<Rightarrow> super_clean self
              | Some st \<Rightarrow>
                  if \<not> stage_active st then
                    (if (case self_id of None \<Rightarrow> False | Some i \<Rightarrow> is_active_subtask d i)
                     then Inl closed_with_active_subtask
                     else super_clean self)
                  else super_clean self))
      else super_clean self)"

subsection \<open>Task.save\<close>

text \<open>
  Modelled from the spec: \<^verbatim>\<open>TaskBase.save\<close> (not among the source files) persists the
  record, as the framework's \<^verbatim>\<open>Model.save\<close> does: the rows with the task's primary key
  are replaced by the instance; an instance without a key, or whose key has no row, is
  inserted, the former under a key no row has yet.
\<close>

definition fresh_id :: "db \<Rightarrow> nat" where
  "fresh_id d =
     Suc (fold max (map (\<lambda>t. case id' t of None \<Rightarrow> 0 | Some i \<Rightarrow> i) (task_table d)) 0)"

definition super_save :: "db \<Rightarrow> Task \<Rightarrow> db \<times> Task" where
  "super_save d self =
     (case id' self of
        None \<Rightarrow>
          (let self' = self\<lparr>id' := Some (fresh_id d)\<rparr>
           in (d\<lparr>task_table := task_table d @ [self']\<rparr>, self'))
      | Some i \<Rightarrow>
          if list_ex (\<lambda>t. id' t = Some i) (task_table d)
          then (d\<lparr>task_table := map (\<lambda>t. if id' t = Some i then self else t) (task_table d)\<rparr>,
                self)
          else (d\<lparr>task_table := task_table d @ [self]\<rparr>, self))"

text \<open>
  \<^verbatim>\<open>Task.save\<close>: the task's \<open>active\<close> flag follows its stage, a falsy \<open>lead_time\<close>
  (\<^verbatim>\<open>None\<close> or a zero duration) becomes \<^verbatim>\<open>timedelta(minutes=0)\<close>, then the record is
  persisted. The result is the database and the instance after the call.
\<close>

definition Task_save :: "db \<Rightarrow> Task \<Rightarrow> db \<times> Task" where
  "Task_save d self =
     (let self1 = (case stage self of
                     Some st \<Rightarrow> self\<lparr>active := stage_active st\<rparr>
                   | None \<Rightarrow> self);
          self2 = (if \<not> truthy_timedelta (lead_time self1)
                   then self1\<lparr>lead_time := Some 0\<rparr>
                   else self1)
      in super_save d self2)"

subsection \<open>Task.check_and_deacte_main_task\<close>

text \<open>
  Modelled from the spec: \<^verbatim>\<open>TaskBase.add_to_workflow\<close> (not among the source files)
  records a message in the task's workflow text and touches no other field.
\<close>

definition add_to_workflow :: "Task \<Rightarrow> string \<Rightarrow> Task" where
  "add_to_workflow self msg = self\<lparr>workflow := workflow self @ [msg]\<rparr>"

text \<open>\<^verbatim>\<open>subtasks.filter(stage__done=True, active=False)\<close>\<close>

definition done_subtasks_of :: "Task list \<Rightarrow> Task list" where
  "done_subtasks_of subtasks =
     filter (\<lambda>t. (case stage t of None \<Rightarrow> False | Some s \<Rightarrow> stage_done s) \<and> \<not> active t)
       subtasks"

text \<open>
  \<^verbatim>\<open>USER_MODEL.objects.filter(tasks_task_responsible_related__in=done_subtasks)\<close>: the
  users responsible for one of the given tasks.
\<close>

definition responsible_of :: "Task list \<Rightarrow> user list" where
  "responsible_of ts = concat (map responsible ts)"

text \<open>
  The main task is read through \<^verbatim>\<open>self.task\<close>; \<open>today\<close> is the value of
  \<^verbatim>\<open>get_today()\<close>. The translated string \<^verbatim>\<open>_("Done")\<close> is the string itself.
\<close>

definition check_and_deacte_main_task :: "date \<Rightarrow> db \<Rightarrow> Task \<Rightarrow> error + db" where
  "check_and_deacte_main_task today d self =
     (case related_task d self of
        Inl e \<Rightarrow> Inl e
      | Inr None \<Rightarrow> Inr d
      | Inr (Some main_task) \<Rightarrow>
          (case stage main_task of
             None \<Rightarrow> Inr d
           | Some main_stage \<Rightarrow>
               if stage_default main_stage \<or> stage_in_progress main_stage then
                 (let subtasks = subtasks_of d main_task in
                  if \<not> list_ex active subtasks then
                    (let done_subtasks = done_subtasks_of subtasks;
                         done_responsible = responsible_of done_subtasks;
                         responsible_main = responsible main_task
                     in if set responsible_main = set done_responsible then
                          (case find stage_done (stage_table d) of
                             None \<Rightarrow> Inr d
                           | Some done_stage \<Rightarrow>
                               (let main1 = main_task\<lparr>stage := Some done_stage\<rparr>;
                                    main2 = add_to_workflow main1
                                              ''The main task is closed automatically.'';
                                    main3 = main2\<lparr>next_step := ''Done'',
                                                  next_step_date := Some today,
                                                  closing_date := Some today\<rparr>
                                in Inr (fst (Task_save d main3))))
                        else Inr d)
                  else Inr d)
               else Inr d))"

subsection \<open>Task.copy_files_to_maintask\<close>

text \<open>\<^verbatim>\<open>file_model.objects.create(file=f.file, content_object=main_task)\<close>\<close>

definition create_file :: "Task \<Rightarrow> TheFile \<Rightarrow> db \<Rightarrow> db" where
  "create_file main_task f d =
     d\<lparr>file_table := file_table d @
          [\<lparr>file' = file' f, content_type = TaskModel, object_id = id' main_task\<rparr>]\<rparr>"

definition copy_files_to_maintask :: "db \<Rightarrow> Task \<Rightarrow> error + db" where
  "copy_files_to_maintask d self =
     (case related_task d self of
        Inl e \<Rightarrow> Inl e
      | Inr None \<Rightarrow> Inr d
      | Inr (Some main_task) \<Rightarrow>
          (let maintask_files = map file' (task_files d main_task);
               uniq_files = filter (\<lambda>f. file' f \<notin> set maintask_files) (task_files d self)
           in if uniq_files \<noteq> [] then Inr (fold (create_file main_task) uniq_files d)
              else Inr d))"

section \<open>Form validation\<close>

text \<open>
  A bound form after field cleaning: \<^verbatim>\<open>cleaned_data\<close> (a missing key and \<^verbatim>\<open>None\<close> are
  both \<open>None\<close>, which is what \<^verbatim>\<open>cleaned_data.get\<close> returns for either) and the list
  \<^verbatim>\<open>changed_data\<close> of the names of the fields whose value differs from the initial one.
\<close>

record form_data =
  cd_name :: "string option"
  cd_responsible :: "user list option"
  cd_due_date :: "date option"
  cd_next_step_date :: "date option"
  cd_remind_me :: "bool option"
  cd_task :: "nat option"

record form =
  cleaned_data :: form_data
  changed_data :: "string list"

definition ONE_RESPONSIBLE_MSG :: string where
  "ONE_RESPONSIBLE_MSG = ''This is a sub-task, so specify only one responsible.''"

definition past_date_msg :: string where
  "past_date_msg = ''Date should not be in the past.''"

text \<open>\<^verbatim>\<open>TaskBaseForm.clean_name\<close>; \<open>NO_NAME_STR\<close> is \<^verbatim>\<open>settings.NO_NAME_STR\<close>.\<close>

definition clean_name :: "string \<Rightarrow> form \<Rightarrow> error + string" where
  "clean_name NO_NAME_STR frm =
     (case cd_name (cleaned_data frm) of
        None \<Rightarrow> Inl (ValidationError None ''Please specify a name'')
      | Some nm \<Rightarrow>
          if nm = [] \<or> nm = NO_NAME_STR
          then Inl (ValidationError None ''Please specify a name'')
          else Inr nm)"

text \<open>The module-level function \<^verbatim>\<open>clean_next_step_date(form)\<close>.\<close>

definition clean_next_step_date :: "date \<Rightarrow> form \<Rightarrow> error + unit" where
  "clean_next_step_date today frm =
     (let remind_me = cd_remind_me (cleaned_data frm) in
      if ''next_step_date'' \<in> set (changed_data frm)
         \<or> (''remind_me'' \<in> set (changed_data frm) \<and> remind_me = Some True)
      then
        (case cd_next_step_date (cleaned_data frm) of
           None \<Rightarrow> Inr ()
         | Some next_step_date' \<Rightarrow>
             if next_step_date' < today
             then Inl (ValidationError (Some ''next_step_date'') past_date_msg)
             else Inr ())
      else Inr ())"

text \<open>
  \<^verbatim>\<open>TaskBaseForm.clean\<close>. The framework's \<^verbatim>\<open>ModelForm.clean\<close> returns
  \<^verbatim>\<open>self.cleaned_data\<close>; the checks run in the order of the source and the first one
  that fails raises.
\<close>

definition TaskBaseForm_clean :: "date \<Rightarrow> form \<Rightarrow> error + form_data" where
  "TaskBaseForm_clean today frm =
     (let cleaned = cleaned_data frm in
      case clean_next_step_date today frm of
        Inl e \<Rightarrow> Inl e
      | Inr u \<Rightarrow>
          if ''due_date'' \<in> set (changed_data frm)
             \<and> (case cd_due_date cleaned of None \<Rightarrow> False | Some dd \<Rightarrow> dd < today)
          then Inl (ValidationError (Some ''due_date'') past_date_msg)
          else if ''responsible'' \<in> set (changed_data frm)
                  \<and> cd_task cleaned \<noteq> None
                  \<and> truthy_seq (cd_responsible cleaned)
                  \<and> (case cd_responsible cleaned of None \<Rightarrow> False | Some us \<Rightarrow> length us > 1)
          then Inl (ValidationError (Some ''responsible'') ONE_RESPONSIBLE_MSG)
          else Inr cleaned)"

section \<open>The admin controller TaskAdmin\<close>

subsection \<open>get_queryset\<close>

text \<open>
  The SQL functions of the annotation. \<^verbatim>\<open>Coalesce\<close> is the first argument that is not
  null. \<^verbatim>\<open>Least\<close> (written \<open>Least_expr\<close>) of two values that are not null is the
  smaller one; with a null argument PostgreSQL returns the other argument, the other
  database backends return null. The backends also differ in where an ascending
  \<^verbatim>\<open>ORDER BY\<close> puts nulls: first on MySQL and SQLite, last on PostgreSQL and Oracle.
\<close>

datatype backend = PostgreSQL | MySQL | SQLite | Oracle

definition Coalesce :: "'a option \<Rightarrow> 'a option \<Rightarrow> 'a option" where
  "Coalesce a b = (case a of Some x \<Rightarrow> Some x | None \<Rightarrow> b)"

definition Least_expr :: "backend \<Rightarrow> ('a::linorder) option \<Rightarrow> 'a option \<Rightarrow> 'a option" where
  "Least_expr be a b =
     (case a of
        None \<Rightarrow> (if be = PostgreSQL then b else None)
      | Some x \<Rightarrow>
          (case b of
             None \<Rightarrow> (if be = PostgreSQL then Some x else None)
           | Some y \<Rightarrow> Some (min x y)))"

definition nulls_first :: "backend \<Rightarrow> bool" where
  "nulls_first be = (be = MySQL \<or> be = SQLite)"

text \<open>
  The position of a nullable column value in an ascending order: the values that are
  not null in their own order, null before or after all of them.
\<close>

definition order_key :: "backend \<Rightarrow> 'a \<Rightarrow> 'a option \<Rightarrow> nat \<times> 'a" where
  "order_key be dflt v =
     (case v of
        None \<Rightarrow> (if nulls_first be then 0 else 2, dflt)
      | Some x \<Rightarrow> (1, x))"

text \<open>A row of the annotated queryset: the task and its two annotations.\<close>

record annotated_task =
  row :: Task
  step_date :: "date option"
  parent_id :: "nat option"

text \<open>
  The column \<^verbatim>\<open>task__next_step_date\<close>: the left outer join with the parent's row, null
  when there is none.
\<close>

definition parent_next_step_date :: "db \<Rightarrow> Task \<Rightarrow> date option" where
  "parent_next_step_date d t =
     (case task t of
        None \<Rightarrow> None
      | Some p \<Rightarrow> (case get_task d p of None \<Rightarrow> None | Some m \<Rightarrow> next_step_date m))"

definition annotate :: "backend \<Rightarrow> db \<Rightarrow> Task \<Rightarrow> annotated_task" where
  "annotate be d t =
     \<lparr>row = t,
      step_date = Least_expr be (Coalesce (parent_next_step_date d t) (next_step_date t))
                    (next_step_date t),
      parent_id = Coalesce (task t) (id' t)\<rparr>"

text \<open>\<^verbatim>\<open>order_by("parent_id", "step_date", "id")\<close>\<close>

definition queryset_order ::
  "backend \<Rightarrow> annotated_task \<Rightarrow> (nat \<times> nat) \<times> (nat \<times> date) \<times> (nat \<times> nat)" where
  "queryset_order be r =
     (order_key be 0 (parent_id r), order_key be 0 (step_date r), order_key be 0 (id' (row r)))"

text \<open>
  \<^verbatim>\<open>TaskAdmin.get_queryset\<close>. The queryset \<open>qs\<close> is the result of
  \<^verbatim>\<open>super().get_queryset(request)\<close> (\<^verbatim>\<open>TasksBaseModelAdmin\<close> is not among the source
  files), the join reads the whole task table of \<open>d\<close>.
\<close>

definition get_queryset :: "backend \<Rightarrow> db \<Rightarrow> Task list \<Rightarrow> annotated_task list" where
  "get_queryset be d qs = sort_key (queryset_order be) (map (annotate be d) qs)"

subsection \<open>save_related\<close>

text \<open>
  The cascade of a sub-task's stage to its main task (the block under
  \<^verbatim>\<open>if main_stage and obj_stage\<close>).
\<close>

definition save_related_cascade :: "db \<Rightarrow> Task \<Rightarrow> Task \<Rightarrow> db" where
  "save_related_cascade d obj main_task =
     (case stage main_task of
        None \<Rightarrow> d
      | Some main_stage \<Rightarrow>
          (case stage obj of
             None \<Rightarrow> d
           | Some obj_stage \<Rightarrow>
               if stage_default main_stage \<and> stage_in_progress obj_stage
               then fst (Task_save d (main_task\<lparr>stage := Some obj_stage\<rparr>))
               else d))"

text \<open>
  \<^verbatim>\<open>TaskAdmin.save_related\<close>, from the state that the framework's
  \<^verbatim>\<open>super().save_related\<close> leaves; \<open>obj\<close> is \<^verbatim>\<open>form.instance\<close>. Every assignment to the
  instance \<^verbatim>\<open>main_task\<close> is followed by its \<^verbatim>\<open>save()\<close>, so the instance is read back
  from its row. \<open>notify\<close> is \<^verbatim>\<open>notify_task_or_project_closed\<close>, which is not among the
  source files.
\<close>

definition save_related :: "(db \<Rightarrow> Task \<Rightarrow> db) \<Rightarrow> date \<Rightarrow> db \<Rightarrow> Task \<Rightarrow> error + db" where
  "save_related notify today d obj =
     (case related_task d obj of
        Inl e \<Rightarrow> Inl e
      | Inr None \<Rightarrow> Inr d
      | Inr (Some main_task) \<Rightarrow>
          (let d1 = save_related_cascade d obj main_task in
           if \<not> active obj then
             (case copy_files_to_maintask d1 obj of
                Inl e \<Rightarrow> Inl e
              | Inr d2 \<Rightarrow>
                  (case check_and_deacte_main_task today d2 obj of
                     Inl e \<Rightarrow> Inl e
                   | Inr d3 \<Rightarrow>
                       (case related_task d3 obj of
                          Inr (Some main_task') \<Rightarrow>
                            if \<not> active main_task' then Inr (notify d3 main_task') else Inr d3
                        | _ \<Rightarrow> Inr d3)))
           else Inr d1))"

subsection \<open>coloured_name\<close>

text \<open>
  The two renderings of a task's name in the list; \<^verbatim>\<open>mark_safe\<close> leaves the text as
  it is. The first is delimited by double quotes (character 0x22) in the source, the
  second by single quotes (character 0x27).
\<close>

definition main_task_span :: "string \<Rightarrow> string" where
  "main_task_span nm =
     ''<span style='' @ [CHR 0x22] @ ''color:var(--green-fg)'' @ [CHR 0x22] @ ''>''
       @ nm @ ''</span>''"

definition subtask_span :: "string \<Rightarrow> string" where
  "subtask_span nm =
     ''<span style='' @ [CHR 0x27] @ ''margin-left:20px'' @ [CHR 0x27] @ ''>''
       @ nm @ ''</span>''"

definition coloured_name :: "db \<Rightarrow> Task \<Rightarrow> error + string" where
  "coloured_name d obj =
     (case related_task d obj of
        Inl e \<Rightarrow> Inl e
      | Inr None \<Rightarrow> Inr (main_task_span (name obj))
      | Inr (Some parent) \<Rightarrow> Inr (subtask_span (name obj)))"

section \<open>Example data\<close>

text \<open>
  Three stages, a main task with one closed sub-task, their files and a submitted
  form: the concrete inputs at which the theorems below are instantiated.
\<close>

definition ex_default_stage :: TaskStage where
  "ex_default_stage =
     \<lparr>stage_name = ''pending'', stage_active = True, stage_done = False,
      stage_default = True, stage_in_progress = False\<rparr>"

definition ex_in_progress_stage :: TaskStage where
  "ex_in_progress_stage =
     \<lparr>stage_name = ''in progress'', stage_active = True, stage_done = False,
      stage_default = False, stage_in_progress = True\<rparr>"

definition ex_done_stage :: TaskStage where
  "ex_done_stage =
     \<lparr>stage_name = ''done'', stage_active = False, stage_done = True,
      stage_default = False, stage_in_progress = False\<rparr>"

definition ex_main :: Task where
  "ex_main =
     \<lparr>id' = Some 1, task = None, stage = Some ex_default_stage, hide_main_task = False,
      lead_time = Some 0, name = ''Prepare offer'', active = True, next_step = ''Call'',
      next_step_date = Some 10, due_date = None, closing_date = None,
      responsible = [1], workflow = []\<rparr>"

definition ex_sub :: Task where
  "ex_sub =
     \<lparr>id' = Some 2, task = Some 1, stage = Some ex_done_stage, hide_main_task = False,
      lead_time = None, name = ''Collect prices'', active = False, next_step = ''Done'',
      next_step_date = Some 7, due_date = None, closing_date = Some 7,
      responsible = [1], workflow = []\<rparr>"

definition ex_db :: db where
  "ex_db =
     \<lparr>task_table = [ex_main, ex_sub],
      stage_table = [ex_default_stage, ex_in_progress_stage, ex_done_stage],
      file_table =
        [\<lparr>file' = ''offer.pdf'', content_type = TaskModel, object_id = Some 1\<rparr>,
         \<lparr>file' = ''offer.pdf'', content_type = TaskModel, object_id = Some 2\<rparr>,
         \<lparr>file' = ''prices.xls'', content_type = TaskModel, object_id = Some 2\<rparr>]\<rparr>"

definition ex_form :: form where
  "ex_form =
     \<lparr>cleaned_data =
        \<lparr>cd_name = Some ''Collect prices'', cd_responsible = Some [1, 2],
         cd_due_date = Some 5, cd_next_step_date = Some 12, cd_remind_me = Some False,
         cd_task = Some 1\<rparr>,
      changed_data = [''responsible'']\<rparr>"

text \<open>
  The same main task with a second responsible user, and the sub-task once it has
  been started.
\<close>

definition cx_main :: Task where
  "cx_main = ex_main\<lparr>responsible := [1, 2]\<rparr>"

definition cx_db :: db where
  "cx_db = ex_db\<lparr>task_table := [cx_main, ex_sub]\<rparr>"

definition ex_sub_started :: Task where
  "ex_sub_started = ex_sub\<lparr>stage := Some ex_in_progress_stage, active := True\<rparr>"

text \<open>A second main task, with an earlier next step.\<close>

definition ex_other :: Task where
  "ex_other = ex_main\<lparr>id' := Some 3, name := ''Send invoice'', next_step_date := Some 3\<rparr>"

text \<open>
  A second sub-task of the main task, due after it; and a sub-task of a sub-task: the
  task 6 under the task 5, itself under the main task 1. The two task tables hold the
  rows in an order that is not the one of the list.
\<close>

definition ex_late :: Task where
  "ex_late = ex_sub\<lparr>id' := Some 4, name := ''Draft contract'', next_step_date := Some 12\<rparr>"

definition ex_mid :: Task where
  "ex_mid = ex_sub\<lparr>id' := Some 5\<rparr>"

definition ex_nested :: Task where
  "ex_nested = ex_sub\<lparr>id' := Some 6, task := Some 5, name := ''Ask supplier''\<rparr>"

definition listed_db :: db where
  "listed_db = ex_db\<lparr>task_table := [ex_other, ex_late, ex_sub, ex_main]\<rparr>"

definition nested_db :: db where
  "nested_db = ex_db\<lparr>task_table := [ex_main, ex_mid, ex_nested, ex_other]\<rparr>"

section \<open>Auxiliary facts\<close>

subsection \<open>Saving and looking up rows\<close>

lemma find_replace_id:
  "id' s = Some i \<Longrightarrow>
   find (\<lambda>t. id' t = Some i) (map (\<lambda>t. if id' t = Some i then s else t) ts) =
     (if list_ex (\<lambda>t. id' t = Some i) ts then Some s else None)"
  by (induction ts) auto

lemma find_append_new:
  "\<not> list_ex P ts \<Longrightarrow> P s \<Longrightarrow> find P (ts @ [s]) = Some s"
  by (induction ts) auto

lemma fold_max_ge: "(a::nat) \<le> fold max xs a"
  by (induction xs arbitrary: a) (auto intro: order_trans[OF max.cobounded2])

lemma fold_max_mem: "(x::nat) \<in> set xs \<Longrightarrow> x \<le> fold max xs a"
proof (induction xs arbitrary: a)
  case Nil
  then show ?case by simp
next
  case (Cons y ys)
  show ?case
  proof (cases "x = y")
    case True
    have "y \<le> max y a" by simp
    also have "\<dots> \<le> fold max ys (max y a)" by (rule fold_max_ge)
    finally show ?thesis using True by simp
  next
    case False
    with Cons show ?thesis by simp
  qed
qed

lemma fresh_id_unused: "\<not> list_ex (\<lambda>t. id' t = Some (fresh_id d)) (task_table d)"
proof
  assume "list_ex (\<lambda>t. id' t = Some (fresh_id d)) (task_table d)"
  then obtain t where t: "t \<in> set (task_table d)" "id' t = Some (fresh_id d)"
    by (auto simp: list_ex_iff)
  then have "fresh_id d \<in> set (map (\<lambda>t. case id' t of None \<Rightarrow> 0 | Some i \<Rightarrow> i) (task_table d))"
    by force
  then have "fresh_id d \<le> fold max (map (\<lambda>t. case id' t of None \<Rightarrow> 0 | Some i \<Rightarrow> i) (task_table d)) 0"
    by (rule fold_max_mem)
  then show False by (simp add: fresh_id_def)
qed

lemma super_save_persists:
  "super_save d s = (d', s') \<Longrightarrow> \<exists>i. id' s' = Some i \<and> get_task d' i = Some s'"
  using fresh_id_unused[of d]
  by (auto simp: super_save_def get_task_def Let_def find_replace_id find_append_new
       split: option.splits if_splits)

lemma super_save_fields:
  "super_save d s = (d', s') \<Longrightarrow> s' = s\<lparr>id' := id' s'\<rparr> \<and> stage_table d' = stage_table d \<and> file_table d' = file_table d"
  by (auto simp: super_save_def Let_def split: option.splits if_splits)

lemma find_SomeD: "find P xs = Some x \<Longrightarrow> P x \<and> x \<in> set xs"
  by (induction xs) (auto split: if_splits)

lemma get_task_id: "get_task d i = Some m \<Longrightarrow> id' m = Some i"
  by (auto simp: get_task_def dest: find_SomeD)

lemma is_active_subtask_iff:
  "is_active_subtask d i =
     (\<exists>sub \<in> set (task_table d). task sub = Some i \<and> (\<exists>s. stage sub = Some s \<and> stage_active s))"
  by (auto simp: is_active_subtask_def list_ex_iff split: option.splits)

lemma spans_differ: "main_task_span nm \<noteq> subtask_span nm'"
  by (simp add: main_task_span_def subtask_span_def)

lemma super_save_keyed:
  "id' s = Some i \<Longrightarrow> snd (super_save d s) = s"
  by (simp add: super_save_def)

lemma Task_save_keyed:
  assumes "id' s = Some i"
  shows "snd (Task_save d s) =
           s\<lparr>active := (case stage s of Some st \<Rightarrow> stage_active st | None \<Rightarrow> active s),
             lead_time := (if truthy_timedelta (lead_time s) then lead_time s else Some 0)\<rparr>
         \<and> get_task (fst (Task_save d s)) i = Some (snd (Task_save d s))
         \<and> stage_table (fst (Task_save d s)) = stage_table d
         \<and> file_table (fst (Task_save d s)) = file_table d"
proof -
  define s2 where "s2 = (let self1 = (case stage s of Some st \<Rightarrow> s\<lparr>active := stage_active st\<rparr> | None \<Rightarrow> s)
     in if \<not> truthy_timedelta (lead_time self1) then self1\<lparr>lead_time := Some 0\<rparr> else self1)"
  have ts: "Task_save d s = super_save d s2"
    by (simp add: Task_save_def s2_def Let_def)
  have id2: "id' s2 = Some i"
    using assms by (auto simp: s2_def Let_def split: option.splits)
  have s2eq: "s2 = s\<lparr>active := (case stage s of Some st \<Rightarrow> stage_active st | None \<Rightarrow> active s),
             lead_time := (if truthy_timedelta (lead_time s) then lead_time s else Some 0)\<rparr>"
    by (auto simp: s2_def Let_def split: option.splits)
  have sn: "snd (super_save d s2) = s2" using id2 by (rule super_save_keyed)
  obtain d' s' where sv: "super_save d s2 = (d', s')" by (cases "super_save d s2")
  with sn have s': "s' = s2" by simp
  from super_save_persists[OF sv] s' id2 have g: "get_task d' i = Some s2" by auto
  from super_save_fields[OF sv] have f: "stage_table d' = stage_table d" "file_table d' = file_table d"
    by simp_all
  show ?thesis unfolding ts sv using s' g f s2eq by simp
qed

lemma fold_create_file:
  "fold (create_file m) fs d =
     d\<lparr>file_table := file_table d @
         map (\<lambda>f. \<lparr>file' = file' f, content_type = TaskModel, object_id = id' m\<rparr>) fs\<rparr>"
  by (induction fs arbitrary: d) (simp_all add: create_file_def)

lemma find_stage_done: "find stage_done sts = Some ds \<Longrightarrow> stage_done ds"
  by (auto dest: find_SomeD)

subsection \<open>The order of the queryset\<close>

lemma order_key_inj: "order_key be dflt a = order_key be dflt b \<Longrightarrow> a = b"
  by (auto simp: order_key_def split: option.splits if_splits)

lemma order_key_le:
  "order_key be dflt x \<le> order_key be dflt y \<Longrightarrow>
     (\<forall>u v. x = Some u \<and> y = Some v \<longrightarrow> u \<le> v)
     \<and> (x = None \<and> y \<noteq> None \<longrightarrow> be = MySQL \<or> be = SQLite)
     \<and> (x \<noteq> None \<and> y = None \<longrightarrow> be = PostgreSQL \<or> be = Oracle)"
  by (cases be) (auto simp: order_key_def nulls_first_def split: option.splits if_splits)

lemma lex3_le:
  fixes a a' :: "'a::linorder" and b b' :: "'b::linorder" and c c' :: "'c::linorder"
  shows "(a, b, c) \<le> (a', b', c') \<Longrightarrow>
         a \<le> a' \<and> (a = a' \<longrightarrow> b \<le> b' \<and> (b = b' \<longrightarrow> c \<le> c'))"
  by (auto intro: less_imp_le)

lemma queryset_order_le:
  assumes "queryset_order be r \<le> queryset_order be r'"
  shows "order_key be 0 (parent_id r) \<le> order_key be 0 (parent_id r')"
    and "parent_id r = parent_id r' \<Longrightarrow>
           order_key be 0 (step_date r) \<le> order_key be 0 (step_date r')"
    and "parent_id r = parent_id r' \<Longrightarrow> step_date r = step_date r' \<Longrightarrow>
           order_key be 0 (id' (row r)) \<le> order_key be 0 (id' (row r'))"
  using lex3_le[OF assms[unfolded queryset_order_def]] by simp_all

lemma get_queryset_row:
  "r \<in> set (get_queryset be d qs) \<Longrightarrow> r = annotate be d (row r)"
  by (auto simp: get_queryset_def annotate_def)

lemma row_annotate: "map row (map (annotate be d) qs) = qs"
  by (induction qs) (simp_all add: annotate_def)

lemma annotate_step_date:
  "step_date (annotate be d t) =
     (case next_step_date t of
        Some own \<Rightarrow>
          (case parent_next_step_date d t of Some pd \<Rightarrow> Some (min pd own) | None \<Rightarrow> Some own)
      | None \<Rightarrow>
          (case parent_next_step_date d t of
             Some pd \<Rightarrow> if be = PostgreSQL then Some pd else None
           | None \<Rightarrow> None))"
  by (simp add: annotate_def Coalesce_def Least_expr_def split: option.splits)

subsection \<open>The text of the two renderings\<close>

lemma main_task_span_text:
  "main_task_span nm = ''<span style=\"color:var(--green-fg)\">'' @ nm @ ''</span>''"
  by (simp add: main_task_span_def)

lemma subtask_span_text:
  "subtask_span nm = ''<span style='margin-left:20px'>'' @ nm @ ''</span>''"
  by (simp add: subtask_span_def)

section \<open>The claims\<close>

subsection \<open>Closing guard of Task.clean\<close>

text \<open>
  C2. \<^verbatim>\<open>Task.clean\<close> raises the \<^verbatim>\<open>ValidationError\<close> on the field \<^verbatim>\<open>stage\<close> exactly
  when the task has an id (a truthy one: the keys the database assigns start at 1), has
  no parent task, has a stage whose \<^verbatim>\<open>active\<close> flag is off, and some task of the table
  is a sub-task of it with a stage whose \<^verbatim>\<open>active\<close> flag is on. In every other
  configuration (no id, a parent task, no stage, an active stage, no active sub-task)
  this error is not raised.
\<close>

theorem Task_clean_closing_guard:
  "(Task_clean d t = Inl closed_with_active_subtask) =
     (\<exists>i st. id' t = Some i \<and> i \<noteq> 0 \<and> task t = None \<and> stage t = Some st \<and> \<not> stage_active st \<and>
        (\<exists>sub \<in> set (task_table d). task sub = Some i \<and> (\<exists>s. stage sub = Some s \<and> stage_active s)))"
  unfolding is_active_subtask_iff[symmetric]
  by (auto simp: Task_clean_def Let_def truthy_id_def related_task_def super_clean_def
       closed_with_active_subtask_def split: option.splits sum.splits)

text \<open>
  The closed main task of the example passes while its sub-task is done, and is
  refused once the sub-task is in progress.
\<close>

theorem Task_clean_witness:
  "Task_clean ex_db (ex_main\<lparr>stage := Some ex_done_stage\<rparr>) = Inr ()
   \<and> Task_clean (ex_db\<lparr>task_table := [ex_main, ex_sub\<lparr>stage := Some ex_in_progress_stage\<rparr>]\<rparr>)
        (ex_main\<lparr>stage := Some ex_done_stage\<rparr>) = Inl closed_with_active_subtask"
  using Task_clean_closing_guard[of "ex_db\<lparr>task_table := [ex_main, ex_sub\<lparr>stage := Some ex_in_progress_stage\<rparr>]\<rparr>" "ex_main\<lparr>stage := Some ex_done_stage\<rparr>"]
  by (simp add: ex_db_def ex_main_def ex_sub_def ex_done_stage_def ex_in_progress_stage_def ex_default_stage_def
       Task_clean_def truthy_id_def related_task_def is_active_subtask_def super_clean_def)

subsection \<open>Coloured list cells\<close>

text \<open>
  C7. For a task with no parent task \<^verbatim>\<open>coloured_name\<close> returns the task's name inside
  \<^verbatim>\<open><span style="color:var(--green-fg)">\<close> and \<^verbatim>\<open></span>\<close>, the span styled with the
  green foreground colour variable; for a sub-task (its parent's row is in the table)
  it returns the name inside \<^verbatim>\<open><span style='margin-left:20px'>\<close> and \<^verbatim>\<open></span>\<close>, the
  span with the 20px left margin; and whatever it returns is exactly one of the two
  renderings.
\<close>

theorem coloured_name_renderings:
  "(task obj = None \<longrightarrow>
      coloured_name d obj =
        Inr (''<span style=\"color:var(--green-fg)\">'' @ name obj @ ''</span>''))
   \<and> (\<forall>p m. task obj = Some p \<and> find (\<lambda>t. id' t = Some p) (task_table d) = Some m \<longrightarrow>
         coloured_name d obj =
           Inr (''<span style='margin-left:20px'>'' @ name obj @ ''</span>''))
   \<and> (\<forall>r. coloured_name d obj = Inr r \<longrightarrow>
         (r = ''<span style=\"color:var(--green-fg)\">'' @ name obj @ ''</span>'')
           \<noteq> (r = ''<span style='margin-left:20px'>'' @ name obj @ ''</span>''))"
  unfolding main_task_span_text[symmetric] subtask_span_text[symmetric]
  using spans_differ[of "name obj" "name obj"]
  by (auto simp: coloured_name_def related_task_def get_task_def split: option.splits)

text \<open>The main task and the sub-task of the example, rendered.\<close>

theorem coloured_name_witness:
  "coloured_name ex_db ex_main = Inr ''<span style=\"color:var(--green-fg)\">Prepare offer</span>''
   \<and> coloured_name ex_db ex_sub = Inr ''<span style='margin-left:20px'>Collect prices</span>''"
  using coloured_name_renderings[of ex_main ex_db] coloured_name_renderings[of ex_sub ex_db]
  by (simp add: ex_db_def ex_main_def ex_sub_def)

subsection \<open>Name validation\<close>

text \<open>
  C10. \<^verbatim>\<open>clean_name\<close> raises \<^verbatim>\<open>ValidationError('Please specify a name')\<close> if and only if
  the submitted name is missing, empty or equal to \<^verbatim>\<open>settings.NO_NAME_STR\<close>; every other
  name is returned unchanged.
\<close>

theorem clean_name_raises_iff:
  "(clean_name NO_NAME frm = Inl (ValidationError None ''Please specify a name'')) =
     (cd_name (cleaned_data frm) = None \<or> cd_name (cleaned_data frm) = Some []
        \<or> cd_name (cleaned_data frm) = Some NO_NAME)
   \<and> (\<forall>nm. cd_name (cleaned_data frm) = Some nm \<and> nm \<noteq> [] \<and> nm \<noteq> NO_NAME
          \<longrightarrow> clean_name NO_NAME frm = Inr nm)"
  by (auto simp: clean_name_def split: option.splits)

theorem clean_name_witness:
  "clean_name ''Untitled'' ex_form = Inr ''Collect prices''"
  using clean_name_raises_iff[of "''Untitled''" ex_form]
  by (simp add: ex_form_def)

subsection \<open>Save invariant\<close>

text \<open>
  C8, as stated, asks that after \<^verbatim>\<open>Task.save\<close> the \<open>lead_time\<close> is never null or falsy.
  The value that \<^verbatim>\<open>save\<close> puts in place of a falsy \<open>lead_time\<close> is
  \<^verbatim>\<open>timedelta(minutes=0)\<close>, which Python itself counts as false: saving the example's
  sub-task, whose \<open>lead_time\<close> is \<^verbatim>\<open>None\<close>, leaves a falsy \<open>lead_time\<close>.
\<close>

theorem Task_save_lead_time_counterexample:
  "lead_time ex_sub = None
   \<and> lead_time (snd (Task_save ex_db ex_sub)) = Some 0
   \<and> \<not> truthy_timedelta (lead_time (snd (Task_save ex_db ex_sub)))"
  by (simp add: Task_save_def super_save_def ex_sub_def ex_db_def ex_main_def ex_done_stage_def truthy_timedelta_def Let_def)

text \<open>
  C8, amended. After every call of \<^verbatim>\<open>Task.save\<close>: if the task has a stage, the task's
  \<open>active\<close> flag equals the stage's; the \<open>lead_time\<close> is never null, a \<open>lead_time\<close>
  that was null or a zero duration being the zero duration and any other one being
  kept; and the record with these values is the task's row of the table.
\<close>

theorem Task_save_invariant:
  assumes "Task_save d t = (d', t')"
  shows "(\<forall>st. stage t = Some st \<longrightarrow> active t' = stage_active st) \<and>
         lead_time t' \<noteq> None \<and>
         lead_time t' = (if truthy_timedelta (lead_time t) then lead_time t else Some 0) \<and>
         (\<exists>i. id' t' = Some i \<and> get_task d' i = Some t')"
proof -
  define t2 where "t2 = (let self1 = (case stage t of Some st \<Rightarrow> t\<lparr>active := stage_active st\<rparr> | None \<Rightarrow> t)
     in if \<not> truthy_timedelta (lead_time self1) then self1\<lparr>lead_time := Some 0\<rparr> else self1)"
  have sv: "super_save d t2 = (d', t')"
    using assms by (simp add: Task_save_def t2_def Let_def)
  have f: "t' = t2\<lparr>id' := id' t'\<rparr>" using super_save_fields[OF sv] by simp
  have a: "\<forall>st. stage t = Some st \<longrightarrow> active t2 = stage_active st"
    by (auto simp: t2_def Let_def)
  have l: "lead_time t2 = (if truthy_timedelta (lead_time t) then lead_time t else Some 0)"
    by (auto simp: t2_def Let_def split: option.splits)
  have n: "lead_time t2 \<noteq> None"
    unfolding l by (auto simp: truthy_timedelta_def split: option.splits)
  have "active t' = active t2" "lead_time t' = lead_time t2"
    by (subst f, simp)+
  with a l n super_save_persists[OF sv] show ?thesis by simp
qed

theorem Task_save_witness:
  "active (snd (Task_save ex_db (ex_sub\<lparr>active := True\<rparr>))) = False
   \<and> lead_time (snd (Task_save ex_db (ex_sub\<lparr>active := True\<rparr>))) = Some 0"
  using Task_save_invariant[of ex_db "ex_sub\<lparr>active := True\<rparr>" "fst (Task_save ex_db (ex_sub\<lparr>active := True\<rparr>))" "snd (Task_save ex_db (ex_sub\<lparr>active := True\<rparr>))"]
  by (simp add: ex_sub_def ex_done_stage_def truthy_timedelta_def)

subsection \<open>Past-date validation\<close>

text \<open>
  C3, as stated, has every cleaned \<open>due_date\<close> earlier than today refused. The check
  is guarded by \<^verbatim>\<open>'due_date' in self.changed_data\<close>: the example form with a due date
  of day 5, submitted on day 10 with no field changed, is accepted.
\<close>

theorem past_date_unchanged_counterexample:
  "cd_due_date (cleaned_data (ex_form\<lparr>changed_data := []\<rparr>)) = Some 5
   \<and> (5::int) < 10
   \<and> TaskBaseForm_clean 10 (ex_form\<lparr>changed_data := []\<rparr>) = Inr (cleaned_data ex_form)"
  by (simp add: ex_form_def TaskBaseForm_clean_def clean_next_step_date_def)

text \<open>
  C3, amended. If \<open>next_step_date\<close> was changed (or \<open>remind_me\<close> was changed and is
  set) and the cleaned \<open>next_step_date\<close> is earlier than today, then
  \<^verbatim>\<open>clean_next_step_date\<close>, and with it \<^verbatim>\<open>TaskBaseForm.clean\<close>, raises the error
  'Date should not be in the past.' keyed on \<open>next_step_date\<close>; if \<open>due_date\<close> was
  changed, the cleaned \<open>due_date\<close> is earlier than today and the \<open>next_step_date\<close>
  check has passed, then \<^verbatim>\<open>TaskBaseForm.clean\<close> raises the error keyed on \<open>due_date\<close>;
  dates equal to or after today raise no such error.
\<close>

theorem past_date_validation:
  "((''next_step_date'' \<in> set (changed_data frm)
       \<or> (''remind_me'' \<in> set (changed_data frm) \<and> cd_remind_me (cleaned_data frm) = Some True))
      \<and> cd_next_step_date (cleaned_data frm) = Some nd \<and> nd < today
     \<longrightarrow> clean_next_step_date today frm
           = Inl (ValidationError (Some ''next_step_date'') ''Date should not be in the past.'')
         \<and> TaskBaseForm_clean today frm
           = Inl (ValidationError (Some ''next_step_date'') ''Date should not be in the past.''))
   \<and> (''due_date'' \<in> set (changed_data frm)
        \<and> cd_due_date (cleaned_data frm) = Some dd \<and> dd < today
        \<and> clean_next_step_date today frm = Inr ()
     \<longrightarrow> TaskBaseForm_clean today frm
           = Inl (ValidationError (Some ''due_date'') ''Date should not be in the past.''))
   \<and> ((\<forall>n. cd_next_step_date (cleaned_data frm) = Some n \<longrightarrow> today \<le> n)
     \<longrightarrow> clean_next_step_date today frm = Inr ())
   \<and> ((\<forall>n. cd_next_step_date (cleaned_data frm) = Some n \<longrightarrow> today \<le> n)
        \<and> (\<forall>n. cd_due_date (cleaned_data frm) = Some n \<longrightarrow> today \<le> n)
     \<longrightarrow> (\<forall>fld. TaskBaseForm_clean today frm
                  \<noteq> Inl (ValidationError fld ''Date should not be in the past.'')))"
  by (auto simp: TaskBaseForm_clean_def clean_next_step_date_def past_date_msg_def
        ONE_RESPONSIBLE_MSG_def Let_def split: option.splits sum.splits if_splits)

theorem past_date_validation_witness:
  "TaskBaseForm_clean 10 (ex_form\<lparr>changed_data := [''due_date'']\<rparr>)
     = Inl (ValidationError (Some ''due_date'') ''Date should not be in the past.'')
   \<and> clean_next_step_date 13 (ex_form\<lparr>changed_data := [''next_step_date'']\<rparr>)
     = Inl (ValidationError (Some ''next_step_date'') ''Date should not be in the past.'')
   \<and> clean_next_step_date 12 (ex_form\<lparr>changed_data := [''next_step_date'']\<rparr>) = Inr ()"
  using past_date_validation[of "ex_form\<lparr>changed_data := [''due_date'']\<rparr>" 12 10 5]
    past_date_validation[of "ex_form\<lparr>changed_data := [''next_step_date'']\<rparr>" 12 13 5]
    past_date_validation[of "ex_form\<lparr>changed_data := [''next_step_date'']\<rparr>" 12 12 5]
  by (simp add: ex_form_def clean_next_step_date_def)

subsection \<open>Single responsible for sub-tasks\<close>

text \<open>
  C9, as stated, has \<^verbatim>\<open>TaskBaseForm.clean\<close> raise the error keyed on \<open>responsible\<close>
  whenever the field was changed, a parent task is set and more than one user is
  selected. The date checks run first: with a changed due date in the past the same
  submission raises the error keyed on \<open>due_date\<close> instead.
\<close>

theorem one_responsible_preempted_counterexample:
  "''responsible'' \<in> set (changed_data (ex_form\<lparr>changed_data := [''responsible'', ''due_date'']\<rparr>))
   \<and> cd_task (cleaned_data ex_form) = Some 1
   \<and> cd_responsible (cleaned_data ex_form) = Some [1, 2]
   \<and> TaskBaseForm_clean 10 (ex_form\<lparr>changed_data := [''responsible'', ''due_date'']\<rparr>)
       = Inl (ValidationError (Some ''due_date'') ''Date should not be in the past.'')"
  by (simp add: ex_form_def TaskBaseForm_clean_def clean_next_step_date_def past_date_msg_def)

text \<open>
  C9, amended. If the field \<open>responsible\<close> was changed, a parent task is set in the
  cleaned data, more than one user is selected and neither date check of
  \<^verbatim>\<open>TaskBaseForm.clean\<close> fails before, then \<^verbatim>\<open>TaskBaseForm.clean\<close> raises the
  \<^verbatim>\<open>ValidationError\<close> with \<^verbatim>\<open>ONE_RESPONSIBLE_MSG\<close> keyed on \<open>responsible\<close>; with an
  unchanged field, no parent task or at most one responsible it never raises this
  error.
\<close>

theorem one_responsible_for_subtask:
  "(''responsible'' \<in> set (changed_data frm)
      \<and> cd_task (cleaned_data frm) = Some p
      \<and> cd_responsible (cleaned_data frm) = Some us \<and> length us > 1
      \<and> clean_next_step_date today frm = Inr ()
      \<and> \<not> (''due_date'' \<in> set (changed_data frm)
             \<and> (\<exists>dd. cd_due_date (cleaned_data frm) = Some dd \<and> dd < today))
     \<longrightarrow> TaskBaseForm_clean today frm
           = Inl (ValidationError (Some ''responsible'')
                    ''This is a sub-task, so specify only one responsible.''))
   \<and> (''responsible'' \<notin> set (changed_data frm)
        \<or> cd_task (cleaned_data frm) = None
        \<or> (\<forall>us. cd_responsible (cleaned_data frm) = Some us \<longrightarrow> length us \<le> 1)
     \<longrightarrow> TaskBaseForm_clean today frm
           \<noteq> Inl (ValidationError (Some ''responsible'')
                    ''This is a sub-task, so specify only one responsible.''))"
  by (auto simp: TaskBaseForm_clean_def clean_next_step_date_def past_date_msg_def
        ONE_RESPONSIBLE_MSG_def truthy_seq_def Let_def split: option.splits sum.splits if_splits)

theorem one_responsible_witness:
  "TaskBaseForm_clean 5 ex_form
     = Inl (ValidationError (Some ''responsible'')
              ''This is a sub-task, so specify only one responsible.'')
   \<and> TaskBaseForm_clean 5 (ex_form\<lparr>cleaned_data := (cleaned_data ex_form)\<lparr>cd_task := None\<rparr>\<rparr>)
     = Inr ((cleaned_data ex_form)\<lparr>cd_task := None\<rparr>)"
  using one_responsible_for_subtask[of ex_form 1 "[1, 2]" 5]
    one_responsible_for_subtask[of "ex_form\<lparr>cleaned_data := (cleaned_data ex_form)\<lparr>cd_task := None\<rparr>\<rparr>" 1 "[1, 2]" 5]
  by (simp add: ex_form_def clean_next_step_date_def TaskBaseForm_clean_def)

subsection \<open>Auto-closing of the main task\<close>

text \<open>
  C1, as stated, has the main task closed as soon as its stage is a default or
  in-progress one and none of its sub-tasks is active. The code closes it only if, in
  addition, the users responsible for the main task are exactly the users responsible
  for its done sub-tasks: with a second responsible user on the main task and its only
  sub-task done, the call leaves the database as it was.
\<close>

theorem check_and_deacte_main_task_counterexample:
  "get_task cx_db 1 = Some cx_main
   \<and> stage cx_main = Some ex_default_stage \<and> stage_default ex_default_stage
   \<and> subtasks_of cx_db cx_main = [ex_sub]
   \<and> stage ex_sub = Some ex_done_stage \<and> stage_done ex_done_stage \<and> active ex_sub = False
   \<and> check_and_deacte_main_task 20 cx_db ex_sub = Inr cx_db"
  by (simp add: cx_db_def cx_main_def ex_db_def ex_sub_def ex_main_def ex_default_stage_def ex_done_stage_def
      ex_in_progress_stage_def get_task_def subtasks_of_def done_subtasks_of_def responsible_of_def
      check_and_deacte_main_task_def related_task_def)

text \<open>
  C1, amended. Let the main task of a sub-task have a stage. If that stage has the
  default or the in-progress flag, no sub-task of the main task is active, the users
  responsible for the main task are exactly those responsible for its done sub-tasks
  (stage done, not active) and a stage with the done flag exists, then
  \<^verbatim>\<open>check_and_deacte_main_task\<close> on the sub-task closes the main task: its row gets the
  first done stage, the next step "Done" and today as next step date and closing
  date. In every other case the call changes nothing.
\<close>

theorem check_and_deacte_main_task_closes:
  assumes "task self = Some p" and "get_task d p = Some m" and "stage m = Some ms"
  shows "if (stage_default ms \<or> stage_in_progress ms)
            \<and> \<not> list_ex active (subtasks_of d m)
            \<and> set (responsible m) = set (responsible_of (done_subtasks_of (subtasks_of d m)))
            \<and> find stage_done (stage_table d) \<noteq> None
         then \<exists>d' m' ds. check_and_deacte_main_task today d self = Inr d'
                \<and> find stage_done (stage_table d) = Some ds
                \<and> get_task d' p = Some m'
                \<and> stage m' = Some ds \<and> stage_done ds
                \<and> next_step m' = ''Done''
                \<and> next_step_date m' = Some today
                \<and> closing_date m' = Some today
         else check_and_deacte_main_task today d self = Inr d"
proof (cases "(stage_default ms \<or> stage_in_progress ms)
            \<and> \<not> list_ex active (subtasks_of d m)
            \<and> set (responsible m) = set (responsible_of (done_subtasks_of (subtasks_of d m)))
            \<and> find stage_done (stage_table d) \<noteq> None")
  case False
  then show ?thesis
    using assms
    by (auto simp: check_and_deacte_main_task_def related_task_def Let_def split: option.splits)
next
  case True
  then obtain ds where ds: "find stage_done (stage_table d) = Some ds" by auto
  have idm: "id' m = Some p" using assms(2) by (rule get_task_id)
  define m3 where "m3 = (add_to_workflow (m\<lparr>stage := Some ds\<rparr>) ''The main task is closed automatically.'')
     \<lparr>next_step := ''Done'', next_step_date := Some today, closing_date := Some today\<rparr>"
  have id3: "id' m3 = Some p" using idm by (simp add: m3_def add_to_workflow_def)
  have r: "check_and_deacte_main_task today d self = Inr (fst (Task_save d m3))"
    using assms True ds
    by (simp add: check_and_deacte_main_task_def related_task_def Let_def m3_def)
  note sv = Task_save_keyed[OF id3, of d]
  have f: "stage (snd (Task_save d m3)) = Some ds"
      "next_step (snd (Task_save d m3)) = ''Done''"
      "next_step_date (snd (Task_save d m3)) = Some today"
      "closing_date (snd (Task_save d m3)) = Some today"
    unfolding sv[THEN conjunct1] by (simp_all add: m3_def add_to_workflow_def)
  from sv have g: "get_task (fst (Task_save d m3)) p = Some (snd (Task_save d m3))" by simp
  show ?thesis
    using True r ds g f find_stage_done[OF ds] by auto
qed

theorem check_and_deacte_main_task_witness:
  "\<exists>d' m'. check_and_deacte_main_task 20 ex_db ex_sub = Inr d'
      \<and> get_task d' 1 = Some m'
      \<and> stage m' = Some ex_done_stage \<and> next_step m' = ''Done''
      \<and> next_step_date m' = Some 20 \<and> closing_date m' = Some 20"
  using check_and_deacte_main_task_closes[of ex_sub 1 ex_db ex_main ex_default_stage 20]
  by (auto simp: ex_db_def ex_sub_def ex_main_def ex_default_stage_def ex_done_stage_def
      ex_in_progress_stage_def get_task_def subtasks_of_def done_subtasks_of_def responsible_of_def)

subsection \<open>Upward cascade of the stage\<close>

text \<open>
  C4. For a sub-task whose main task is in the table: if the main task's stage has the
  default flag and the sub-task's stage the in-progress flag, the cascade step of
  \<^verbatim>\<open>save_related\<close> gives the main task the sub-task's stage and saves it (so the row
  holds the saved instance, whose \<open>active\<close> flag follows the new stage); if either
  condition fails the step changes nothing; and for an active sub-task this step is
  all that \<^verbatim>\<open>save_related\<close> does.
\<close>

theorem save_related_cascade_stage:
  assumes "task obj = Some p" and "get_task d p = Some m"
  shows "(\<forall>ms os. stage m = Some ms \<and> stage obj = Some os
            \<and> stage_default ms \<and> stage_in_progress os \<longrightarrow>
            (\<exists>m'. get_task (save_related_cascade d obj m) p = Some m'
               \<and> m' = snd (Task_save d (m\<lparr>stage := Some os\<rparr>))
               \<and> stage m' = Some os \<and> active m' = stage_active os))
       \<and> (\<not> (\<exists>ms os. stage m = Some ms \<and> stage obj = Some os
               \<and> stage_default ms \<and> stage_in_progress os) \<longrightarrow>
            save_related_cascade d obj m = d)
       \<and> (active obj \<longrightarrow>
            save_related notify today d obj = Inr (save_related_cascade d obj m))"
proof (intro conjI allI impI)
  fix ms os
  assume a: "stage m = Some ms \<and> stage obj = Some os \<and> stage_default ms \<and> stage_in_progress os"
  have idm: "id' (m\<lparr>stage := Some os\<rparr>) = Some p" using assms(2) by (simp add: get_task_id)
  note sv = Task_save_keyed[OF idm, of d]
  have c: "save_related_cascade d obj m = fst (Task_save d (m\<lparr>stage := Some os\<rparr>))"
    using a by (simp add: save_related_cascade_def)
  show "\<exists>m'. get_task (save_related_cascade d obj m) p = Some m'
               \<and> m' = snd (Task_save d (m\<lparr>stage := Some os\<rparr>))
               \<and> stage m' = Some os \<and> active m' = stage_active os"
    unfolding c using sv by simp
next
  assume "\<not> (\<exists>ms os. stage m = Some ms \<and> stage obj = Some os
               \<and> stage_default ms \<and> stage_in_progress os)"
  then show "save_related_cascade d obj m = d"
    by (auto simp: save_related_cascade_def split: option.splits)
next
  assume "active obj"
  then show "save_related notify today d obj = Inr (save_related_cascade d obj m)"
    using assms by (simp add: save_related_def related_task_def Let_def)
qed

theorem save_related_cascade_witness:
  "save_related (\<lambda>d t. d) 20 ex_db ex_sub_started =
     Inr (ex_db\<lparr>task_table := [ex_main\<lparr>stage := Some ex_in_progress_stage\<rparr>, ex_sub]\<rparr>)
   \<and> save_related_cascade ex_db ex_sub ex_main = ex_db"
  using save_related_cascade_stage[of ex_sub_started 1 ex_db ex_main "\<lambda>d t. d" 20]
     save_related_cascade_stage[of ex_sub 1 ex_db ex_main "\<lambda>d t. d" 20]
  by (simp add: ex_sub_started_def ex_db_def ex_sub_def ex_main_def ex_default_stage_def ex_done_stage_def
      ex_in_progress_stage_def get_task_def save_related_cascade_def Task_save_def super_save_def
      truthy_timedelta_def Let_def)

subsection \<open>Copying files to the main task\<close>

text \<open>
  C5. For a task without a parent task \<^verbatim>\<open>copy_files_to_maintask\<close> returns the database
  unchanged. For a sub-task whose main task is in the table it appends to the file
  table one new file object of the main task for each file object of the sub-task
  whose file is not among the main task's files, in their order, and nothing else:
  the main task's files afterwards are its former ones followed by the new ones.
\<close>

theorem copy_files_to_maintask_unique:
  "(task self = None \<longrightarrow> copy_files_to_maintask d self = Inr d)
   \<and> (\<forall>p m. task self = Some p \<and> get_task d p = Some m \<longrightarrow>
        (\<exists>d'. copy_files_to_maintask d self = Inr d'
           \<and> task_table d' = task_table d \<and> stage_table d' = stage_table d
           \<and> file_table d' = file_table d @
                map (\<lambda>f. \<lparr>file' = file' f, content_type = TaskModel, object_id = Some p\<rparr>)
                  (filter (\<lambda>f. file' f \<notin> file' ` set (task_files d m)) (task_files d self))
           \<and> task_files d' m = task_files d m @
                map (\<lambda>f. \<lparr>file' = file' f, content_type = TaskModel, object_id = Some p\<rparr>)
                  (filter (\<lambda>f. file' f \<notin> file' ` set (task_files d m)) (task_files d self))))"
proof (intro conjI allI impI)
  assume "task self = None"
  then show "copy_files_to_maintask d self = Inr d"
    by (simp add: copy_files_to_maintask_def related_task_def)
next
  fix p m
  assume a: "task self = Some p \<and> get_task d p = Some m"
  then have idm: "id' m = Some p" by (auto dest: get_task_id)
  let ?new = "map (\<lambda>f. \<lparr>file' = file' f, content_type = TaskModel, object_id = Some p\<rparr>)
                  (filter (\<lambda>f. file' f \<notin> file' ` set (task_files d m)) (task_files d self))"
  let ?d' = "d\<lparr>file_table := file_table d @ ?new\<rparr>"
  have r: "copy_files_to_maintask d self = Inr ?d'"
    using a idm
    by (auto simp: copy_files_to_maintask_def related_task_def Let_def fold_create_file)
  have tf: "task_files ?d' m = task_files d m @ ?new"
    using idm by (simp add: task_files_def filter_map o_def)
  show "\<exists>d'. copy_files_to_maintask d self = Inr d'
           \<and> task_table d' = task_table d \<and> stage_table d' = stage_table d
           \<and> file_table d' = file_table d @ ?new
           \<and> task_files d' m = task_files d m @ ?new"
    using r tf by (intro exI[of _ ?d']) simp
qed

theorem copy_files_to_maintask_witness:
  "copy_files_to_maintask ex_db ex_sub =
     Inr (ex_db\<lparr>file_table := file_table ex_db @
            [\<lparr>file' = ''prices.xls'', content_type = TaskModel, object_id = Some 1\<rparr>]\<rparr>)
   \<and> copy_files_to_maintask ex_db ex_main = Inr ex_db"
  using copy_files_to_maintask_unique[of ex_sub ex_db] copy_files_to_maintask_unique[of ex_main ex_db]
  by (simp add: ex_db_def ex_sub_def ex_main_def get_task_def task_files_def
        copy_files_to_maintask_def related_task_def fold_create_file)

subsection \<open>Order of the task list\<close>

text \<open>
  C6, as stated, concludes from the order that each main task is grouped together
  with its sub-tasks. The annotation \<open>parent_id\<close> looks one level up only: when the
  sub-task 5 of the main task 1 has a sub-task 6 of its own, the task 6 is listed under
  \<open>parent_id\<close> 5, and the unrelated task 3 stands between the task 5 and its
  sub-task 6.
\<close>

theorem get_queryset_nested_counterexample:
  "id' ex_mid = Some 5 \<and> task ex_nested = Some 5 \<and> id' ex_nested = Some 6
   \<and> id' ex_other = Some 3 \<and> task ex_other = None
   \<and> map (\<lambda>r. id' (row r)) (get_queryset PostgreSQL nested_db (task_table nested_db))
       = [Some 5, Some 1, Some 3, Some 6]"
  by (simp add: get_queryset_def annotate_def queryset_order_def order_key_def nulls_first_def
       Coalesce_def Least_expr_def parent_next_step_date_def get_task_def nested_db_def
       ex_mid_def ex_nested_def ex_other_def ex_db_def ex_sub_def ex_main_def less_eq_prod_def)

text \<open>
  C6, amended. \<^verbatim>\<open>get_queryset\<close> returns the tasks of the base queryset, each once and
  annotated. \<open>parent_id\<close> is the parent task's id for a sub-task and the task's own id
  otherwise. \<open>step_date\<close> is, for a task with a next step date, the smaller of that
  date and the next step date of its parent's row, and its own date when there is no
  parent row or the parent has no date; for a task without a next step date it is null,
  except that PostgreSQL yields the parent's date. Of two rows of the result the
  earlier has the smaller \<open>parent_id\<close>, with equal \<open>parent_id\<close> the smaller
  \<open>step_date\<close>, and with both equal the smaller id; a null stands before the values on
  MySQL and SQLite and after them on PostgreSQL and Oracle. So each task that has no
  parent task stands together with its sub-tasks: between two rows that are the task
  \<open>p\<close> or a sub-task of \<open>p\<close> every row is one.
\<close>

theorem get_queryset_grouped_order:
  assumes "rs = get_queryset be d qs"
  shows "mset (map row rs) = mset qs
   \<and> (\<forall>r \<in> set rs.
        parent_id r = (case task (row r) of Some p \<Rightarrow> Some p | None \<Rightarrow> id' (row r))
        \<and> (\<forall>pdate.
             pdate = (case task (row r) of
                        None \<Rightarrow> None
                      | Some p \<Rightarrow>
                          (case find (\<lambda>t. id' t = Some p) (task_table d) of
                             None \<Rightarrow> None
                           | Some m \<Rightarrow> next_step_date m))
             \<longrightarrow> step_date r =
                   (case next_step_date (row r) of
                      Some own \<Rightarrow>
                        (case pdate of Some pd \<Rightarrow> Some (min pd own) | None \<Rightarrow> Some own)
                    | None \<Rightarrow>
                        (case pdate of
                           Some pd \<Rightarrow> if be = PostgreSQL then Some pd else None
                         | None \<Rightarrow> None))))
   \<and> (\<forall>i j. i < j \<and> j < length rs \<longrightarrow>
         (\<forall>u v. parent_id (rs ! i) = Some u \<and> parent_id (rs ! j) = Some v \<longrightarrow> u \<le> v)
         \<and> (parent_id (rs ! i) = None \<and> parent_id (rs ! j) \<noteq> None
              \<longrightarrow> be = MySQL \<or> be = SQLite)
         \<and> (parent_id (rs ! i) \<noteq> None \<and> parent_id (rs ! j) = None
              \<longrightarrow> be = PostgreSQL \<or> be = Oracle)
         \<and> (parent_id (rs ! i) = parent_id (rs ! j) \<longrightarrow>
               (\<forall>u v. step_date (rs ! i) = Some u \<and> step_date (rs ! j) = Some v \<longrightarrow> u \<le> v)
               \<and> (step_date (rs ! i) = None \<and> step_date (rs ! j) \<noteq> None
                    \<longrightarrow> be = MySQL \<or> be = SQLite)
               \<and> (step_date (rs ! i) \<noteq> None \<and> step_date (rs ! j) = None
                    \<longrightarrow> be = PostgreSQL \<or> be = Oracle)
               \<and> (step_date (rs ! i) = step_date (rs ! j) \<longrightarrow>
                     (\<forall>u v. id' (row (rs ! i)) = Some u \<and> id' (row (rs ! j)) = Some v
                        \<longrightarrow> u \<le> v))))
   \<and> (\<forall>p i j k. i \<le> j \<and> j \<le> k \<and> k < length rs
         \<and> (task (row (rs ! i)) = Some p
              \<or> task (row (rs ! i)) = None \<and> id' (row (rs ! i)) = Some p)
         \<and> (task (row (rs ! k)) = Some p
              \<or> task (row (rs ! k)) = None \<and> id' (row (rs ! k)) = Some p)
        \<longrightarrow> (task (row (rs ! j)) = Some p
              \<or> task (row (rs ! j)) = None \<and> id' (row (rs ! j)) = Some p))"
proof -
  have srt: "sorted (map (queryset_order be) rs)"
    unfolding assms get_queryset_def by (rule sorted_sort_key)
  have mono: "queryset_order be (rs ! a) \<le> queryset_order be (rs ! b)"
    if "a \<le> b" "b < length rs" for a b
    using sorted_nth_mono[OF srt, of a b] that by simp
  have pid: "parent_id r = (case task (row r) of Some p \<Rightarrow> Some p | None \<Rightarrow> id' (row r))"
    if "r \<in> set rs" for r
    using get_queryset_row[OF that[unfolded assms]]
    by (metis (no_types, lifting) annotate_def Coalesce_def annotated_task.select_convs(3)
        option.case_eq_if option.collapse option.simps(4))
  have sd: "step_date r =
              (case next_step_date (row r) of
                 Some own \<Rightarrow>
                   (case parent_next_step_date d (row r) of
                      Some pd \<Rightarrow> Some (min pd own) | None \<Rightarrow> Some own)
               | None \<Rightarrow>
                   (case parent_next_step_date d (row r) of
                      Some pd \<Rightarrow> if be = PostgreSQL then Some pd else None
                    | None \<Rightarrow> None))"
    if "r \<in> set rs" for r
    using get_queryset_row[OF that[unfolded assms]] annotate_step_date[of be d "row r"] by simp
  have grp: "(task (row r) = Some p \<or> task (row r) = None \<and> id' (row r) = Some p)
               = (parent_id r = Some p)"
    if "r \<in> set rs" for r p
    unfolding pid[OF that] by (auto split: option.splits)
  have c1: "mset (map row rs) = mset qs"
  proof -
    have "mset (map row rs) = mset (map row (map (annotate be d) qs))"
      unfolding assms get_queryset_def by (simp only: mset_map mset_sort)
    then show ?thesis by (simp only: row_annotate)
  qed
  have c2: "\<forall>r \<in> set rs.
        parent_id r = (case task (row r) of Some p \<Rightarrow> Some p | None \<Rightarrow> id' (row r))
        \<and> (\<forall>pdate.
             pdate = (case task (row r) of
                        None \<Rightarrow> None
                      | Some p \<Rightarrow>
                          (case find (\<lambda>t. id' t = Some p) (task_table d) of
                             None \<Rightarrow> None
                           | Some m \<Rightarrow> next_step_date m))
             \<longrightarrow> step_date r =
                   (case next_step_date (row r) of
                      Some own \<Rightarrow>
                        (case pdate of Some pd \<Rightarrow> Some (min pd own) | None \<Rightarrow> Some own)
                    | None \<Rightarrow>
                        (case pdate of
                           Some pd \<Rightarrow> if be = PostgreSQL then Some pd else None
                         | None \<Rightarrow> None)))"
    using pid sd unfolding parent_next_step_date_def get_task_def by simp
  have c3: "\<forall>i j. i < j \<and> j < length rs \<longrightarrow>
         (\<forall>u v. parent_id (rs ! i) = Some u \<and> parent_id (rs ! j) = Some v \<longrightarrow> u \<le> v)
         \<and> (parent_id (rs ! i) = None \<and> parent_id (rs ! j) \<noteq> None
              \<longrightarrow> be = MySQL \<or> be = SQLite)
         \<and> (parent_id (rs ! i) \<noteq> None \<and> parent_id (rs ! j) = None
              \<longrightarrow> be = PostgreSQL \<or> be = Oracle)
         \<and> (parent_id (rs ! i) = parent_id (rs ! j) \<longrightarrow>
               (\<forall>u v. step_date (rs ! i) = Some u \<and> step_date (rs ! j) = Some v \<longrightarrow> u \<le> v)
               \<and> (step_date (rs ! i) = None \<and> step_date (rs ! j) \<noteq> None
                    \<longrightarrow> be = MySQL \<or> be = SQLite)
               \<and> (step_date (rs ! i) \<noteq> None \<and> step_date (rs ! j) = None
                    \<longrightarrow> be = PostgreSQL \<or> be = Oracle)
               \<and> (step_date (rs ! i) = step_date (rs ! j) \<longrightarrow>
                     (\<forall>u v. id' (row (rs ! i)) = Some u \<and> id' (row (rs ! j)) = Some v
                        \<longrightarrow> u \<le> v)))"
  proof (intro allI impI)
    fix i j assume ij: "i < j \<and> j < length rs"
    then have le: "queryset_order be (rs ! i) \<le> queryset_order be (rs ! j)"
      by (intro mono) auto
    note k1 = order_key_le[OF queryset_order_le(1)[OF le]]
    have k2: "parent_id (rs ! i) = parent_id (rs ! j) \<Longrightarrow>
               (\<forall>u v. step_date (rs ! i) = Some u \<and> step_date (rs ! j) = Some v \<longrightarrow> u \<le> v)
               \<and> (step_date (rs ! i) = None \<and> step_date (rs ! j) \<noteq> None
                    \<longrightarrow> be = MySQL \<or> be = SQLite)
               \<and> (step_date (rs ! i) \<noteq> None \<and> step_date (rs ! j) = None
                    \<longrightarrow> be = PostgreSQL \<or> be = Oracle)"
      by (rule order_key_le[OF queryset_order_le(2)[OF le]])
    have k3: "parent_id (rs ! i) = parent_id (rs ! j) \<Longrightarrow> step_date (rs ! i) = step_date (rs ! j) \<Longrightarrow>
               (\<forall>u v. id' (row (rs ! i)) = Some u \<and> id' (row (rs ! j)) = Some v \<longrightarrow> u \<le> v)"
      using order_key_le[OF queryset_order_le(3)[OF le]] by blast
    show "(\<forall>u v. parent_id (rs ! i) = Some u \<and> parent_id (rs ! j) = Some v \<longrightarrow> u \<le> v)
         \<and> (parent_id (rs ! i) = None \<and> parent_id (rs ! j) \<noteq> None
              \<longrightarrow> be = MySQL \<or> be = SQLite)
         \<and> (parent_id (rs ! i) \<noteq> None \<and> parent_id (rs ! j) = None
              \<longrightarrow> be = PostgreSQL \<or> be = Oracle)
         \<and> (parent_id (rs ! i) = parent_id (rs ! j) \<longrightarrow>
               (\<forall>u v. step_date (rs ! i) = Some u \<and> step_date (rs ! j) = Some v \<longrightarrow> u \<le> v)
               \<and> (step_date (rs ! i) = None \<and> step_date (rs ! j) \<noteq> None
                    \<longrightarrow> be = MySQL \<or> be = SQLite)
               \<and> (step_date (rs ! i) \<noteq> None \<and> step_date (rs ! j) = None
                    \<longrightarrow> be = PostgreSQL \<or> be = Oracle)
               \<and> (step_date (rs ! i) = step_date (rs ! j) \<longrightarrow>
                     (\<forall>u v. id' (row (rs ! i)) = Some u \<and> id' (row (rs ! j)) = Some v
                        \<longrightarrow> u \<le> v)))"
      using k1 k2 k3 by blast
  qed
  have c4: "\<forall>p i j k. i \<le> j \<and> j \<le> k \<and> k < length rs
         \<and> (task (row (rs ! i)) = Some p
              \<or> task (row (rs ! i)) = None \<and> id' (row (rs ! i)) = Some p)
         \<and> (task (row (rs ! k)) = Some p
              \<or> task (row (rs ! k)) = None \<and> id' (row (rs ! k)) = Some p)
        \<longrightarrow> (task (row (rs ! j)) = Some p
              \<or> task (row (rs ! j)) = None \<and> id' (row (rs ! j)) = Some p)"
  proof (intro allI impI)
    fix p i j k
    assume a: "i \<le> j \<and> j \<le> k \<and> k < length rs
         \<and> (task (row (rs ! i)) = Some p
              \<or> task (row (rs ! i)) = None \<and> id' (row (rs ! i)) = Some p)
         \<and> (task (row (rs ! k)) = Some p
              \<or> task (row (rs ! k)) = None \<and> id' (row (rs ! k)) = Some p)"
    then have mem: "rs ! i \<in> set rs" "rs ! j \<in> set rs" "rs ! k \<in> set rs" by auto
    from a have pi: "parent_id (rs ! i) = Some p" and pk: "parent_id (rs ! k) = Some p"
      using grp[OF mem(1), of p] grp[OF mem(3), of p] by blast+
    have 1: "order_key be 0 (parent_id (rs ! i)) \<le> order_key be 0 (parent_id (rs ! j))"
      using a by (intro queryset_order_le(1) mono) auto
    have 2: "order_key be 0 (parent_id (rs ! j)) \<le> order_key be 0 (parent_id (rs ! k))"
      using a by (intro queryset_order_le(1) mono) auto
    from 1 2 pi pk have "order_key be 0 (parent_id (rs ! j)) = order_key be 0 (parent_id (rs ! i))"
      by simp
    then have "parent_id (rs ! j) = Some p" using pi order_key_inj by metis
    then show "task (row (rs ! j)) = Some p
              \<or> task (row (rs ! j)) = None \<and> id' (row (rs ! j)) = Some p"
      using grp[OF mem(2), of p] by simp
  qed
  from c1 c2 c3 c4 show ?thesis by (intro conjI)
qed

text \<open>
  A main task due on day 10 with two sub-tasks due on days 7 and 12, and another main
  task: the second sub-task gets its parent's date, the group of task 1 is ordered by
  step date and then by id, and the other task follows.
\<close>

theorem get_queryset_witness:
  "get_queryset PostgreSQL listed_db [ex_other, ex_late, ex_sub, ex_main] =
     [\<lparr>row = ex_sub, step_date = Some 7, parent_id = Some 1\<rparr>,
      \<lparr>row = ex_main, step_date = Some 10, parent_id = Some 1\<rparr>,
      \<lparr>row = ex_late, step_date = Some 10, parent_id = Some 1\<rparr>,
      \<lparr>row = ex_other, step_date = Some 3, parent_id = Some 3\<rparr>]
   \<and> mset (map row (get_queryset PostgreSQL listed_db [ex_other, ex_late, ex_sub, ex_main]))
       = mset [ex_other, ex_late, ex_sub, ex_main]"
proof -
  have 1: "get_queryset PostgreSQL listed_db [ex_other, ex_late, ex_sub, ex_main] =
     [\<lparr>row = ex_sub, step_date = Some 7, parent_id = Some 1\<rparr>,
      \<lparr>row = ex_main, step_date = Some 10, parent_id = Some 1\<rparr>,
      \<lparr>row = ex_late, step_date = Some 10, parent_id = Some 1\<rparr>,
      \<lparr>row = ex_other, step_date = Some 3, parent_id = Some 3\<rparr>]"
    by (simp add: get_queryset_def annotate_def queryset_order_def order_key_def nulls_first_def
       Coalesce_def Least_expr_def parent_next_step_date_def get_task_def listed_db_def
       ex_late_def ex_other_def ex_db_def ex_sub_def ex_main_def less_eq_prod_def)
  have 2: "mset (map row (get_queryset PostgreSQL listed_db [ex_other, ex_late, ex_sub, ex_main]))
       = mset [ex_other, ex_late, ex_sub, ex_main]"
    using get_queryset_grouped_order[OF refl, of PostgreSQL listed_db "[ex_other, ex_late, ex_sub, ex_main]"]
    by (rule conjunct1)
  from 1 2 show ?thesis by (rule conjI)
qed

end
